theory Spec2Isabelle
  imports Complex_Main
begin

section \<open>PCB defect detection app: remediation lookup, sign-up, log-in and page routing\<close>

text \<open>
  The development embeds \<^verbatim>\<open>app.py\<close>: the table \<^verbatim>\<open>DEFECT_SOLUTIONS\<close>, the part of
  \<^verbatim>\<open>show_prediction_page\<close> that turns the detected class names into suggested solutions,
  the form handlers of \<^verbatim>\<open>show_signup_page\<close> and \<^verbatim>\<open>show_login_page\<close>, and the page router at
  the end of the script.

  Conventions of the model.
  \<^item> A Python \<^verbatim>\<open>str\<close> is a \<^typ>\<open>string\<close>; a \<^typ>\<open>char\<close> stands for the code point of the same
    number, so the model covers the labels over U+0000 .. U+00FF.
  \<^item> The dictionary \<^verbatim>\<open>DEFECT_SOLUTIONS\<close> is an association list in insertion order, which is
    the order in which Python iterates over a dict.
  \<^item> A \<^verbatim>\<open>KeyError\<close> of a subscript is a value: fallible code returns \<open>exn + 'a\<close>.
  \<^item> Streamlit calls are recorded as a list of \<open>ui\<close> elements in the order of the calls.
  \<^item> The order in which Python iterates over \<^verbatim>\<open>set(detected_defects)\<close> is not fixed by the
    language; it is an argument of the model, constrained by \<open>iterates\<close>.
  \<^item> \<^verbatim>\<open>hashlib.sha256(p.encode()).hexdigest()\<close> is library code; it is the parameter
    \<open>sha256_hex\<close> of the handlers that use it.
\<close>

subsection \<open>Strings\<close>

text \<open>
  \<^verbatim>\<open>str.lower\<close> on code points below 256: the ASCII capitals and the Latin-1 capitals
  (U+00C0 .. U+00DE without the multiplication sign U+00D7) move up by 32, every other
  code point stays.
\<close>

definition lower_char :: "char \<Rightarrow> char" where
  "lower_char c =
     (let n = (of_char c :: nat)
      in if (65 \<le> n \<and> n \<le> 90) \<or> (192 \<le> n \<and> n \<le> 222 \<and> n \<noteq> 215)
         then char_of (n + 32) else c)"

definition lower :: "string \<Rightarrow> string" where
  "lower s = map lower_char s"

text \<open>\<^verbatim>\<open>s.replace('_', ' ')\<close>\<close>

definition replace_underscore :: "string \<Rightarrow> string" where
  "replace_underscore s = map (\<lambda>c. if c = CHR ''_'' then CHR '' '' else c) s"

text \<open>\<^verbatim>\<open>f"'{s}'"\<close>\<close>

definition quoted :: "string \<Rightarrow> string" where
  "quoted s = [CHR 0x27] @ s @ [CHR 0x27]"

text \<open>Python's \<^verbatim>\<open>needle in haystack\<close> on strings.\<close>

fun starts_with :: "string \<Rightarrow> string \<Rightarrow> bool" where
  "starts_with [] s = True"
| "starts_with (p # ps) [] = False"
| "starts_with (p # ps) (c # cs) = (p = c \<and> starts_with ps cs)"

fun contains :: "string \<Rightarrow> string \<Rightarrow> bool" where
  "contains needle [] = (needle = [])"
| "contains needle (c # cs) = (starts_with needle (c # cs) \<or> contains needle cs)"

subsection \<open>The remediation table\<close>

record remediation =
  description :: string
  solution :: string

type_synonym solutions_table = "(string \<times> remediation) list"

definition DEFECT_SOLUTIONS :: solutions_table where
  "DEFECT_SOLUTIONS =
    [(''Missing_hole'',
       \<lparr>description = ''A hole that was supposed to be drilled is absent.'',
        solution = ''1. Review the drilling program for errors. 2. Manually drill the missing hole if possible. 3. Re-fabricate the board if the defect is critical.''\<rparr>),
     (''Mouse_bite'',
       \<lparr>description = ''A small indentation or nick on the edge of a trace or pad.'',
        solution = ''1. Check for mechanical damage during handling. 2. For minor bites, the board may pass quality checks. 3. For severe bites, the board must be rejected to prevent an open circuit.''\<rparr>),
     (''Open_circuit'',
       \<lparr>description = ''A break in a copper trace, preventing electrical flow.'',
        solution = ''1. Use a continuity tester to confirm the break. 2. Repair by soldering a jumper wire across the break. 3. If repair is not feasible, the board must be discarded.''\<rparr>),
     (''Short'',
       \<lparr>description = ''Two separate traces are accidentally connected, creating a path for electrical flow where there should not be one.'',
        solution = ''1. Use a multimeter to locate the short. 2. Carefully scrape the copper to remove the short. 3. Check for any solder bridges or foreign material causing the short.''\<rparr>),
     (''Spur'',
       \<lparr>description = ''A sharp protrusion extending from a trace, potentially causing a short with other components.'',
        solution = ''1. Carefully scrape the copper to remove the spur. 2. Use a microscope to ensure the entire spur has been removed. 3. Check for shorts after repair.''\<rparr>),
     (''Spurious_copper'',
       \<lparr>description = ''Unwanted copper residue that may cause shorts or other issues.'',
        solution = ''1. Carefully remove the spurious copper using appropriate etching or mechanical methods. 2. Check surrounding areas for additional copper residue. 3. Test for shorts after removal.''\<rparr>)]"

datatype exn = KeyError

text \<open>\<^verbatim>\<open>d.keys()\<close>, \<^verbatim>\<open>k in d\<close> and \<^verbatim>\<open>d[k]\<close> of a dict held as an association list.\<close>

definition keys :: "solutions_table \<Rightarrow> string list" where
  "keys tbl = map fst tbl"

definition dict_contains :: "solutions_table \<Rightarrow> string \<Rightarrow> bool" where
  "dict_contains tbl k = (k \<in> set (keys tbl))"

definition dict_getitem :: "solutions_table \<Rightarrow> string \<Rightarrow> exn + remediation" where
  "dict_getitem tbl k = (case map_of tbl k of None \<Rightarrow> Inl KeyError | Some r \<Rightarrow> Inr r)"

subsection \<open>What the page shows\<close>

text \<open>
  One constructor for each Streamlit call of the modelled code. \<open>ImportantNote\<close> is the
  \<^verbatim>\<open>st.warning\<close> with the fixed "Important Note" text of lines 201 and 211, \<open>DetectionLine\<close>
  the line 177 with the class name (underscores replaced) and the confidence it formats,
  \<open>WriteList\<close> a \<^verbatim>\<open>st.write\<close> of a caption and a list.
\<close>

datatype ui =
    Write string
  | WriteList string "string list"
  | DetectionLine string real
  | Markdown string
  | Subheader string
  | Expander string "ui list"
  | Warning string
  | ImportantNote
  | Info string
  | Error string
  | Success string

subsection \<open>Suggested solutions (\<^verbatim>\<open>show_prediction_page\<close>, lines 171 to 220)\<close>

record detection =
  class_name :: string
  confidence :: real

text \<open>
  The branch an iteration of the loop over \<^verbatim>\<open>unique_defects\<close> ends in: the exact match of
  line 196 with the solution text written, the case-insensitive match of line 206 with the
  \<^verbatim>\<open>solution_key\<close> that matched and the solution text written, or the \<^verbatim>\<open>else\<close> of the inner
  \<^verbatim>\<open>for\<close> at line 213.
\<close>

datatype branch =
    ExactMatch string
  | CaseInsensitiveMatch string string
  | NoSolution

text \<open>
  The state of the loop: the flag \<^verbatim>\<open>solutions_found\<close>, the elements written so far, and a
  log of the defects handled with the branch each one took.
\<close>

record loop_state =
  solutions_found :: bool
  shown :: "ui list"
  handled :: "(string \<times> branch) list"

text \<open>The expander of lines 198 to 201 and 208 to 211.\<close>

definition solution_expander :: "string \<Rightarrow> string \<Rightarrow> ui" where
  "solution_expander defect text =
     Expander (''**Solution for '' @ replace_underscore defect @ ''**'')
       [Write ''**Suggested Repair Steps:**'', Write text, ImportantNote]"

text \<open>
  The inner loop of lines 205 to 214 over the keys still to visit. \<open>Inr (Some (k, text))\<close>:
  the loop left by \<^verbatim>\<open>break\<close> at key \<open>k\<close>, having written \<open>text\<close>; \<open>Inr None\<close>: the keys are
  exhausted, and the \<^verbatim>\<open>else\<close> of the \<^verbatim>\<open>for\<close> runs.
\<close>

fun scan_keys :: "solutions_table \<Rightarrow> string list \<Rightarrow> string \<Rightarrow> exn + (string \<times> string) option" where
  "scan_keys tbl [] defect = Inr None"
| "scan_keys tbl (solution_key # rest) defect =
     (if lower defect = lower solution_key then
        (case dict_getitem tbl solution_key of
           Inl e \<Rightarrow> Inl e
         | Inr r \<Rightarrow> Inr (Some (solution_key, solution r)))
      else scan_keys tbl rest defect)"

text \<open>The body of the loop of line 192.\<close>

definition process_defect :: "solutions_table \<Rightarrow> loop_state \<Rightarrow> string \<Rightarrow> exn + loop_state" where
  "process_defect tbl s defect =
     (let s1 = s\<lparr>shown := shown s @ [Write (''Looking for solution for: '' @ quoted defect)]\<rparr>
      in if dict_contains tbl defect then
           (case dict_getitem tbl defect of
              Inl e \<Rightarrow> Inl e
            | Inr r \<Rightarrow>
                Inr (s1\<lparr>solutions_found := True,
                        shown := shown s1 @ [solution_expander defect (solution r)],
                        handled := handled s1 @ [(defect, ExactMatch (solution r))]\<rparr>))
         else
           (case scan_keys tbl (keys tbl) defect of
              Inl e \<Rightarrow> Inl e
            | Inr (Some (solution_key, text)) \<Rightarrow>
                Inr (s1\<lparr>solutions_found := True,
                        shown := shown s1 @ [solution_expander defect text],
                        handled := handled s1 @ [(defect, CaseInsensitiveMatch solution_key text)]\<rparr>)
            | Inr None \<Rightarrow>
                Inr (s1\<lparr>shown := shown s1 @
                          [Warning (''No solution available for defect type: '' @ quoted defect)],
                        handled := handled s1 @ [(defect, NoSolution)]\<rparr>)))"

fun for_each_defect :: "solutions_table \<Rightarrow> loop_state \<Rightarrow> string list \<Rightarrow> exn + loop_state" where
  "for_each_defect tbl s [] = Inr s"
| "for_each_defect tbl s (defect # rest) =
     (case process_defect tbl s defect of
        Inl e \<Rightarrow> Inl e
      | Inr s' \<Rightarrow> for_each_defect tbl s' rest)"

text \<open>
  \<open>iterates detected_defects unique_defects\<close>: the list \<open>unique_defects\<close> is an order in which
  Python may iterate over \<^verbatim>\<open>set(detected_defects)\<close>: each element once.
\<close>

definition iterates :: "string list \<Rightarrow> string list \<Rightarrow> bool" where
  "iterates detected_defects unique_defects =
     (distinct unique_defects \<and> set unique_defects = set detected_defects)"

text \<open>
  Lines 188 to 217: the loop from the initial state, then the \<^verbatim>\<open>st.info\<close> of line 217 when
  no solution was found.
\<close>

definition suggest_solutions :: "solutions_table \<Rightarrow> string list \<Rightarrow> exn + loop_state" where
  "suggest_solutions tbl unique_defects =
     (case for_each_defect tbl \<lparr>solutions_found = False, shown = [], handled = []\<rparr> unique_defects of
        Inl e \<Rightarrow> Inl e
      | Inr s \<Rightarrow>
          Inr (if \<not> solutions_found s
               then s\<lparr>shown := shown s @ [Info ''No matching solutions found for the detected defects.'']\<rparr>
               else s))"

text \<open>
  Lines 171 to 220 on the boxes of the first result, \<open>unique_defects\<close> being the iteration
  order of the set built at line 189. Without boxes only the \<^verbatim>\<open>st.info\<close> of line 220 runs.
\<close>

definition detection_report :: "detection list \<Rightarrow> string list \<Rightarrow> exn + loop_state" where
  "detection_report boxes unique_defects =
     (if boxes = [] then
        Inr \<lparr>solutions_found = False,
             shown = [Info ''No defects were detected in this image.''],
             handled = []\<rparr>
      else
        (let detected_defects = map class_name boxes;
             header =
               [Subheader ''Defects Detected:''] @
               map (\<lambda>box. DetectionLine (replace_underscore (class_name box)) (confidence box)) boxes @
               [Write ''**Debug Info:**'',
                WriteList ''Detected defects:'' detected_defects,
                WriteList ''Available solutions:'' (keys DEFECT_SOLUTIONS),
                Markdown ''---'',
                Subheader ''Suggested Solutions:'']
         in case suggest_solutions DEFECT_SOLUTIONS unique_defects of
              Inl e \<Rightarrow> Inl e
            | Inr s \<Rightarrow> Inr (s\<lparr>shown := header @ shown s\<rparr>)))"

text \<open>
  The report read off the final state: the labels that were given a solution, each with the
  text written for it, and the labels that were given none.
\<close>

fun solution_of :: "branch \<Rightarrow> string option" where
  "solution_of (ExactMatch text) = Some text"
| "solution_of (CaseInsensitiveMatch solution_key text) = Some text"
| "solution_of NoSolution = None"

definition resolved :: "loop_state \<Rightarrow> (string \<times> string) list" where
  "resolved s =
     concat (map (\<lambda>(defect, b). case solution_of b of None \<Rightarrow> [] | Some text \<Rightarrow> [(defect, text)])
       (handled s))"

definition unresolved :: "loop_state \<Rightarrow> string list" where
  "unresolved s = map fst (filter (\<lambda>(defect, b). b = NoSolution) (handled s))"

text \<open>
  What the three steps of the lookup amount to for one label, written without the loops:
  the label is a key; or it is no key and \<open>k\<close> is the first key, in the order of the table,
  that equals it after lower-casing; or no key equals it after lower-casing.
\<close>

definition first_ci_key :: "string list \<Rightarrow> string \<Rightarrow> string \<Rightarrow> bool" where
  "first_ci_key ks defect k =
     (\<exists>i \<in> {..<length ks}. ks ! i = k \<and> lower defect = lower k \<and>
        (\<forall>j \<in> {..<i}. lower defect \<noteq> lower (ks ! j)))"

definition three_step_lookup :: "solutions_table \<Rightarrow> string \<Rightarrow> branch \<Rightarrow> bool" where
  "three_step_lookup tbl defect b =
     (case b of
        ExactMatch text \<Rightarrow>
          defect \<in> set (keys tbl) \<and> map_option solution (map_of tbl defect) = Some text
      | CaseInsensitiveMatch k text \<Rightarrow>
          defect \<notin> set (keys tbl) \<and> first_ci_key (keys tbl) defect k \<and>
          map_option solution (map_of tbl k) = Some text
      | NoSolution \<Rightarrow>
          defect \<notin> set (keys tbl) \<and> list_all (\<lambda>k. lower defect \<noteq> lower k) (keys tbl))"

text \<open>
  The branch of one label in closed form; the proofs below show that the loop logs exactly
  this branch for every label it handles.
\<close>

definition branch_of :: "solutions_table \<Rightarrow> string \<Rightarrow> branch" where
  "branch_of tbl defect =
     (case map_of tbl defect of
        Some r \<Rightarrow> ExactMatch (solution r)
      | None \<Rightarrow>
          (case List.find (\<lambda>k. lower defect = lower k) (keys tbl) of
             None \<Rightarrow> NoSolution
           | Some k \<Rightarrow>
               (case map_of tbl k of
                  None \<Rightarrow> NoSolution
                | Some r \<Rightarrow> CaseInsensitiveMatch k (solution r))))"

text \<open>What the loop writes for one label, in closed form.\<close>

definition lines_for :: "solutions_table \<Rightarrow> string \<Rightarrow> ui list" where
  "lines_for tbl defect =
     [Write (''Looking for solution for: '' @ quoted defect),
      (case solution_of (branch_of tbl defect) of
         Some text \<Rightarrow> solution_expander defect text
       | None \<Rightarrow> Warning (''No solution available for defect type: '' @ quoted defect))]"

text \<open>The detections of the scenario with two spellings of one class and an unknown class.\<close>

definition scenario_boxes :: "detection list" where
  "scenario_boxes =
     [\<lparr>class_name = ''Short'', confidence = 0.91\<rparr>,
      \<lparr>class_name = ''short'', confidence = 0.40\<rparr>,
      \<lparr>class_name = ''Unknown_defect'', confidence = 0.30\<rparr>]"

subsection \<open>Session state, sign-up, log-in and the router\<close>

text \<open>
  \<^verbatim>\<open>st.session_state\<close>: the attribute \<^verbatim>\<open>username\<close> does not exist before the first log-in,
  \<^verbatim>\<open>users\<close> is the dict from user name to password digest.
\<close>

record session_state =
  logged_in :: bool
  username :: "string option"
  page :: string
  users :: "string \<rightharpoonup> string"

text \<open>Lines 229 to 238: the session state of a fresh session.\<close>

definition init_session :: "(string \<Rightarrow> string) \<Rightarrow> session_state" where
  "init_session sha256_hex =
     \<lparr>logged_in = False,
      username = None,
      page = ''home'',
      users = [''testuser'' \<mapsto> sha256_hex ''password123'',
               ''john.doe'' \<mapsto> sha256_hex ''securepass'']\<rparr>"

text \<open>How a handler ends: it returns, or it calls \<^verbatim>\<open>st.rerun()\<close>.\<close>

datatype flow = Continue | Rerun

text \<open>
  Lines 104 to 113, the form of \<^verbatim>\<open>show_signup_page\<close> once submitted. An empty string is
  falsy, so \<^verbatim>\<open>not new_username\<close> holds for the empty string only.
\<close>

definition signup_submitted ::
  "(string \<Rightarrow> string) \<Rightarrow> session_state \<Rightarrow> string \<Rightarrow> string \<Rightarrow> session_state \<times> ui list \<times> flow" where
  "signup_submitted sha256_hex s new_username new_password =
     (if new_username = [] \<or> new_password = [] then
        (s, [Error ''Username and password cannot be empty.''], Continue)
      else if users s new_username \<noteq> None then
        (s, [Error ''Username already exists. Please choose a different one.''], Continue)
      else
        (s\<lparr>users := (users s)(new_username \<mapsto> sha256_hex new_password), page := ''login''\<rparr>,
         [Success ''Account created successfully! You can now log in.''],
         Rerun))"

text \<open>Lines 129 to 137, the form of \<^verbatim>\<open>show_login_page\<close> once submitted.\<close>

definition login_submitted ::
  "(string \<Rightarrow> string) \<Rightarrow> session_state \<Rightarrow> string \<Rightarrow> string \<Rightarrow> session_state \<times> ui list \<times> flow" where
  "login_submitted sha256_hex s name password =
     (let password_hash = sha256_hex password
      in if users s name \<noteq> None \<and> users s name = Some password_hash then
           (s\<lparr>logged_in := True, username := Some name, page := ''prediction''\<rparr>, [], Rerun)
         else
           (s, [Error ''Invalid username or password''], Continue))"

text \<open>
  Lines 254 to 265, the router: the page function it calls, or \<open>None\<close> when it resets the
  page to home and calls \<^verbatim>\<open>st.rerun()\<close>.
\<close>

datatype view = HomePage | SignupPage | LoginPage | PredictionPage

definition route :: "session_state \<Rightarrow> session_state \<times> view option" where
  "route s =
     (if page s = ''home'' then (s, Some HomePage)
      else if page s = ''signup'' then (s, Some SignupPage)
      else if page s = ''login'' then (s, Some LoginPage)
      else if logged_in s \<and> page s = ''prediction'' then (s, Some PredictionPage)
      else (s\<lparr>page := ''home''\<rparr>, None))"

section \<open>Properties of the lookup\<close>

subsection \<open>The table\<close>

lemma keys_DEFECT_SOLUTIONS:
  "keys DEFECT_SOLUTIONS =
     [''Missing_hole'', ''Mouse_bite'', ''Open_circuit'', ''Short'', ''Spur'', ''Spurious_copper'']"
  by (simp add: keys_def DEFECT_SOLUTIONS_def)

lemma distinct_keys: "distinct (keys DEFECT_SOLUTIONS)"
  by (simp add: keys_DEFECT_SOLUTIONS)

lemma distinct_lower_keys: "distinct (map lower (keys DEFECT_SOLUTIONS))"
  unfolding keys_DEFECT_SOLUTIONS by code_simp

lemma map_of_keys: "k \<in> set (keys tbl) \<longleftrightarrow> map_of tbl k \<noteq> None"
  by (simp add: keys_def map_of_eq_None_iff)

lemma in_table_keys: "(k, r) \<in> set tbl \<Longrightarrow> k \<in> set (keys tbl)"
  by (force simp: keys_def)

lemma map_of_entry: "distinct (keys tbl) \<Longrightarrow> (k, r) \<in> set tbl \<Longrightarrow> map_of tbl k = Some r"
  by (simp add: keys_def)

subsection \<open>The inner loop\<close>

lemma scan_keys_find:
  "scan_keys tbl ks d =
     (case List.find (\<lambda>k. lower d = lower k) ks of
        None \<Rightarrow> Inr None
      | Some k \<Rightarrow>
          (case dict_getitem tbl k of Inl e \<Rightarrow> Inl e | Inr r \<Rightarrow> Inr (Some (k, solution r))))"
  by (induction ks) auto

lemma find_in_set: "List.find P xs = Some x \<Longrightarrow> x \<in> set xs"
  by (auto simp: find_Some_iff)

lemma find_unique:
  assumes "distinct (map f xs)" and "k \<in> set xs" and "f k = v"
  shows "List.find (\<lambda>x. v = f x) xs = Some k"
  using assms
proof (induction xs)
  case Nil
  then show ?case by simp
next
  case (Cons x xs)
  show ?case
  proof (cases "x = k")
    case True
    with Cons.prems show ?thesis by simp
  next
    case False
    with Cons.prems have k: "k \<in> set xs" by simp
    with Cons.prems have "f x \<noteq> f k" by (auto simp: image_iff)
    with Cons.prems have "v \<noteq> f x" by simp
    moreover from Cons.IH Cons.prems k have "List.find (\<lambda>x. v = f x) xs = Some k" by simp
    ultimately show ?thesis by simp
  qed
qed

subsection \<open>The branch of one label\<close>

lemma branch_of_exact:
  "map_of tbl d = Some r \<Longrightarrow> branch_of tbl d = ExactMatch (solution r)"
  by (simp add: branch_of_def)

lemma branch_of_NoSolution_iff:
  "branch_of tbl d = NoSolution \<longleftrightarrow>
     d \<notin> set (keys tbl) \<and> (\<forall>k \<in> set (keys tbl). lower d \<noteq> lower k)"
proof (cases "map_of tbl d")
  case (Some r)
  then show ?thesis by (simp add: branch_of_def map_of_keys)
next
  case None
  note miss = this
  show ?thesis
  proof (cases "List.find (\<lambda>k. lower d = lower k) (keys tbl)")
    case None
    then have "\<forall>k \<in> set (keys tbl). lower d \<noteq> lower k" by (simp add: find_None_iff)
    with miss None show ?thesis by (simp add: branch_of_def map_of_keys)
  next
    case (Some k)
    then have k: "k \<in> set (keys tbl)" and eq: "lower d = lower k"
      by (auto simp: find_Some_iff)
    from k obtain r where "map_of tbl k = Some r" by (auto simp: map_of_keys)
    with miss Some k eq show ?thesis by (auto simp: branch_of_def)
  qed
qed

lemma branch_of_ci_iff:
  "branch_of tbl d = CaseInsensitiveMatch k t \<longleftrightarrow>
     d \<notin> set (keys tbl) \<and> List.find (\<lambda>k'. lower d = lower k') (keys tbl) = Some k \<and>
     map_option solution (map_of tbl k) = Some t"
  by (auto simp: branch_of_def map_of_keys split: option.splits)

lemma branch_of_exact_iff:
  "branch_of tbl d = ExactMatch t \<longleftrightarrow>
     d \<in> set (keys tbl) \<and> map_option solution (map_of tbl d) = Some t"
  by (auto simp: branch_of_def map_of_keys split: option.splits)

lemma first_ci_key_find:
  "first_ci_key ks d k \<longleftrightarrow> List.find (\<lambda>k'. lower d = lower k') ks = Some k"
  by (auto simp: first_ci_key_def find_Some_iff)

lemma three_step_lookup_iff: "three_step_lookup tbl d b \<longleftrightarrow> b = branch_of tbl d"
proof (cases b)
  case (ExactMatch t)
  then show ?thesis
    using branch_of_exact_iff [of tbl d t] by (auto simp: three_step_lookup_def)
next
  case (CaseInsensitiveMatch k t)
  then show ?thesis
    using branch_of_ci_iff [of tbl d k t]
    by (auto simp: three_step_lookup_def first_ci_key_find)
next
  case NoSolution
  then show ?thesis
    using branch_of_NoSolution_iff [of tbl d]
    by (auto simp: three_step_lookup_def list_all_iff)
qed

lemma branch_of_solved:
  assumes "solution_of (branch_of tbl d) = Some t"
  shows "\<exists>k r. (k, r) \<in> set tbl \<and> (d = k \<or> lower d = lower k) \<and> t = solution r"
proof (cases "branch_of tbl d")
  case (ExactMatch t')
  with assms have "branch_of tbl d = ExactMatch t" by simp
  then obtain r where "map_of tbl d = Some r" "t = solution r"
    by (auto simp: branch_of_exact_iff)
  then show ?thesis by (blast dest: map_of_SomeD)
next
  case (CaseInsensitiveMatch k t')
  with assms have "branch_of tbl d = CaseInsensitiveMatch k t" by simp
  then obtain r where "map_of tbl k = Some r" "t = solution r" "lower d = lower k"
    by (auto simp: branch_of_ci_iff find_Some_iff)
  then show ?thesis by (blast dest: map_of_SomeD)
next
  case NoSolution
  with assms show ?thesis by simp
qed

lemma branch_of_key:
  "distinct (keys tbl) \<Longrightarrow> (k, r) \<in> set tbl \<Longrightarrow> branch_of tbl k = ExactMatch (solution r)"
  by (simp add: branch_of_exact map_of_entry)

lemma branch_of_other_case:
  assumes dk: "distinct (keys tbl)" and dl: "distinct (map lower (keys tbl))"
    and entry: "(k, r) \<in> set tbl" and ne: "d \<noteq> k" and eq: "lower d = lower k"
  shows "branch_of tbl d = CaseInsensitiveMatch k (solution r)"
proof -
  from entry have k: "k \<in> set (keys tbl)" by (rule in_table_keys)
  have "d \<notin> set (keys tbl)"
  proof
    assume "d \<in> set (keys tbl)"
    with dl k eq have "d = k" by (auto simp: distinct_map dest: inj_onD)
    with ne show False by simp
  qed
  moreover from dl k have "List.find (\<lambda>k'. lower d = lower k') (keys tbl) = Some k"
    by (rule find_unique) (simp add: eq)
  moreover from dk entry have "map_of tbl k = Some r" by (rule map_of_entry)
  ultimately show ?thesis by (simp add: branch_of_ci_iff)
qed

subsection \<open>The loop over the labels\<close>

lemma process_defect_branch:
  "process_defect tbl s d =
     Inr (s\<lparr>solutions_found := (solutions_found s \<or> branch_of tbl d \<noteq> NoSolution),
            shown := shown s @ lines_for tbl d,
            handled := handled s @ [(d, branch_of tbl d)]\<rparr>)"
proof (cases "map_of tbl d")
  case (Some r)
  then show ?thesis
    by (simp add: process_defect_def dict_contains_def map_of_keys dict_getitem_def
        branch_of_def lines_for_def)
next
  case None
  note miss = this
  show ?thesis
  proof (cases "List.find (\<lambda>k. lower d = lower k) (keys tbl)")
    case None
    with miss show ?thesis
      by (simp add: process_defect_def dict_contains_def map_of_keys scan_keys_find
          branch_of_def lines_for_def)
  next
    case (Some k)
    then have "k \<in> set (keys tbl)" by (rule find_in_set)
    then obtain r where "map_of tbl k = Some r" by (auto simp: map_of_keys)
    with miss Some show ?thesis
      by (simp add: process_defect_def dict_contains_def map_of_keys scan_keys_find
          dict_getitem_def branch_of_def lines_for_def)
  qed
qed

lemma for_each_defect_branch:
  "\<exists>s'. for_each_defect tbl s us = Inr s' \<and>
        handled s' = handled s @ map (\<lambda>d. (d, branch_of tbl d)) us \<and>
        shown s' = shown s @ concat (map (lines_for tbl) us) \<and>
        solutions_found s' =
          (solutions_found s \<or> (\<exists>d \<in> set us. branch_of tbl d \<noteq> NoSolution))"
proof (induction us arbitrary: s)
  case Nil
  show ?case by simp
next
  case (Cons d us)
  let ?s1 = "s\<lparr>solutions_found := (solutions_found s \<or> branch_of tbl d \<noteq> NoSolution),
               shown := shown s @ lines_for tbl d,
               handled := handled s @ [(d, branch_of tbl d)]\<rparr>"
  from Cons.IH [of ?s1] obtain s' where
    run: "for_each_defect tbl ?s1 us = Inr s'" and
    h: "handled s' = handled ?s1 @ map (\<lambda>d. (d, branch_of tbl d)) us" and
    sh: "shown s' = shown ?s1 @ concat (map (lines_for tbl) us)" and
    f: "solutions_found s' =
          (solutions_found ?s1 \<or> (\<exists>d \<in> set us. branch_of tbl d \<noteq> NoSolution))"
    by blast
  have "for_each_defect tbl s (d # us) = Inr s'"
    using run by (simp add: process_defect_branch)
  moreover have "handled s' = handled s @ map (\<lambda>d. (d, branch_of tbl d)) (d # us)"
    using h by simp
  moreover have "shown s' = shown s @ concat (map (lines_for tbl) (d # us))"
    using sh by simp
  moreover have "solutions_found s' =
      (solutions_found s \<or> (\<exists>d \<in> set (d # us). branch_of tbl d \<noteq> NoSolution))"
    using f by auto
  ultimately show ?case by blast
qed

lemma suggest_solutions_branch:
  "\<exists>s. suggest_solutions tbl us = Inr s \<and>
       handled s = map (\<lambda>d. (d, branch_of tbl d)) us \<and>
       (\<forall>d \<in> set us. set (lines_for tbl d) \<subseteq> set (shown s))"
proof -
  let ?s0 = "\<lparr>solutions_found = False, shown = [], handled = []\<rparr>"
  from for_each_defect_branch [of tbl ?s0 us] obtain s' where
    run: "for_each_defect tbl ?s0 us = Inr s'" and
    h: "handled s' = map (\<lambda>d. (d, branch_of tbl d)) us" and
    sh: "shown s' = concat (map (lines_for tbl) us)"
    by auto
  show ?thesis
  proof (cases "solutions_found s'")
    case True
    with run h sh show ?thesis by (auto simp: suggest_solutions_def)
  next
    case False
    with run h sh show ?thesis by (auto simp: suggest_solutions_def)
  qed
qed

lemma detection_report_branch:
  assumes "iterates (map class_name boxes) us"
  shows "\<exists>s. detection_report boxes us = Inr s \<and>
       handled s = map (\<lambda>d. (d, branch_of DEFECT_SOLUTIONS d)) us \<and>
       (\<forall>d \<in> set us. set (lines_for DEFECT_SOLUTIONS d) \<subseteq> set (shown s))"
proof (cases "boxes = []")
  case True
  with assms have "us = []" by (simp add: iterates_def)
  with True show ?thesis by (simp add: detection_report_def)
next
  case False
  from suggest_solutions_branch [of DEFECT_SOLUTIONS us] obtain s where
    "suggest_solutions DEFECT_SOLUTIONS us = Inr s" and
    "handled s = map (\<lambda>d. (d, branch_of DEFECT_SOLUTIONS d)) us" and
    "\<forall>d \<in> set us. set (lines_for DEFECT_SOLUTIONS d) \<subseteq> set (shown s)"
    by blast
  with False show ?thesis by (auto simp: detection_report_def Let_def)
qed

lemma detection_report_total: "\<exists>s. detection_report boxes us = Inr s"
proof (cases "boxes = []")
  case True
  then show ?thesis by (simp add: detection_report_def)
next
  case False
  from suggest_solutions_branch [of DEFECT_SOLUTIONS us] obtain s where
    "suggest_solutions DEFECT_SOLUTIONS us = Inr s" by blast
  with False show ?thesis by (simp add: detection_report_def Let_def)
qed

subsection \<open>The report\<close>

lemma resolved_set:
  assumes "handled s = map (\<lambda>d. (d, branch_of tbl d)) us"
  shows "set (resolved s) = {(d, t). d \<in> set us \<and> solution_of (branch_of tbl d) = Some t}"
  using assms by (auto simp: resolved_def split: option.splits)

lemma unresolved_filter:
  assumes "handled s = map (\<lambda>d. (d, branch_of tbl d)) us"
  shows "unresolved s = filter (\<lambda>d. branch_of tbl d = NoSolution) us"
  using assms by (simp add: unresolved_def filter_map comp_def)

lemma resolved_labels:
  assumes "handled s = map (\<lambda>d. (d, branch_of tbl d)) us"
  shows "map fst (resolved s) = filter (\<lambda>d. branch_of tbl d \<noteq> NoSolution) us"
proof -
  have "map fst (concat (map (\<lambda>(defect, b). case solution_of b of None \<Rightarrow> []
                                | Some t \<Rightarrow> [(defect, t)])
          (map (\<lambda>d. (d, branch_of tbl d)) xs))) =
        filter (\<lambda>d. branch_of tbl d \<noteq> NoSolution) xs" for xs
  proof (induction xs)
    case Nil
    show ?case by simp
  next
    case (Cons x xs)
    then show ?case by (cases "branch_of tbl x") simp_all
  qed
  with assms show ?thesis by (simp add: resolved_def)
qed

lemma filter_single:
  assumes "distinct xs" and "x \<in> set xs" and "\<And>y. y \<in> set xs \<Longrightarrow> P y \<longleftrightarrow> y = x"
  shows "filter P xs = [x]"
  using assms
proof (induction xs)
  case Nil
  then show ?case by simp
next
  case (Cons y ys)
  show ?case
  proof (cases "y = x")
    case True
    with Cons.prems have "x \<notin> set ys" by simp
    with Cons.prems(3) have "\<forall>z \<in> set ys. \<not> P z" by auto
    then have "filter P ys = []" by (simp add: filter_empty_conv)
    moreover from True Cons.prems(3) have "P y" by simp
    ultimately show ?thesis using True by simp
  next
    case False
    with Cons.prems have "x \<in> set ys" "distinct ys" "\<not> P y" by auto
    moreover have "filter P ys = [x]"
      using Cons.IH \<open>distinct ys\<close> \<open>x \<in> set ys\<close> Cons.prems(3) by auto
    ultimately show ?thesis by simp
  qed
qed

subsection \<open>Facts about the scenario and about filters\<close>

lemma filter_at_most_one:
  "distinct (map f xs) \<Longrightarrow> length (filter (\<lambda>x. v = f x) xs) \<le> 1"
proof (induction xs)
  case Nil
  show ?case by simp
next
  case (Cons x xs)
  show ?case
  proof (cases "v = f x")
    case True
    with Cons.prems have "\<forall>y \<in> set xs. v \<noteq> f y" by auto
    then have "filter (\<lambda>x. v = f x) xs = []" by (simp add: filter_empty_conv)
    with True show ?thesis by simp
  next
    case False
    with Cons show ?thesis by simp
  qed
qed

lemma branch_Unknown_defect:
  "branch_of DEFECT_SOLUTIONS ''Unknown_defect'' = NoSolution"
  unfolding branch_of_NoSolution_iff keys_DEFECT_SOLUTIONS by code_simp

lemma short_entry:
  "map_of DEFECT_SOLUTIONS ''Short'' =
     Some \<lparr>description = ''Two separate traces are accidentally connected, creating a path for electrical flow where there should not be one.'',
           solution = ''1. Use a multimeter to locate the short. 2. Carefully scrape the copper to remove the short. 3. Check for any solder bridges or foreign material causing the short.''\<rparr>"
  by (simp add: DEFECT_SOLUTIONS_def)

lemma short_text_multimeter:
  "contains ''multimeter'' ''1. Use a multimeter to locate the short. 2. Carefully scrape the copper to remove the short. 3. Check for any solder bridges or foreign material causing the short.''"
  by simp

lemma branch_Short:
  "branch_of DEFECT_SOLUTIONS ''Short'' =
     ExactMatch ''1. Use a multimeter to locate the short. 2. Carefully scrape the copper to remove the short. 3. Check for any solder bridges or foreign material causing the short.''"
  by (simp add: branch_of_exact [OF short_entry])

lemma branch_short:
  "branch_of DEFECT_SOLUTIONS ''short'' =
     CaseInsensitiveMatch ''Short'' ''1. Use a multimeter to locate the short. 2. Carefully scrape the copper to remove the short. 3. Check for any solder bridges or foreign material causing the short.''"
proof -
  have "lower ''short'' = lower ''Short''" by code_simp
  moreover have "''short'' \<noteq> ''Short''" by simp
  moreover from short_entry have "(''Short'', the (map_of DEFECT_SOLUTIONS ''Short'')) \<in> set DEFECT_SOLUTIONS"
    by (simp add: map_of_SomeD)
  ultimately show ?thesis
    using branch_of_other_case [OF distinct_keys distinct_lower_keys, of "''Short''" _ "''short''"]
    by (simp add: short_entry)
qed

section \<open>The claims about the suggested solutions\<close>

lemma iterates_scenario:
  "iterates (map class_name scenario_boxes) [''short'', ''Unknown_defect'', ''Short'']"
  by (auto simp: iterates_def scenario_boxes_def)

text \<open>
  C1. Whatever the detections and the order in which the set of their labels is iterated,
  the loop handles each unique label once, and the branch it takes for a label is the one
  the three steps prescribe: the exact match when the label is a key of the table;
  otherwise the first key, in the order of the table, equal to the label after lower-casing;
  otherwise no solution.
\<close>

theorem lookup_three_steps:
  assumes "iterates (map class_name boxes) unique_defects"
  shows "\<exists>s. detection_report boxes unique_defects = Inr s \<and>
           map fst (handled s) = unique_defects \<and>
           (\<forall>defect b. (defect, b) \<in> set (handled s) \<longleftrightarrow>
              defect \<in> set unique_defects \<and> three_step_lookup DEFECT_SOLUTIONS defect b)"
proof -
  from detection_report_branch [OF assms] obtain s where
    run: "detection_report boxes unique_defects = Inr s" and
    h: "handled s = map (\<lambda>d. (d, branch_of DEFECT_SOLUTIONS d)) unique_defects"
    by blast
  from h have "map fst (handled s) = unique_defects" by (simp add: comp_def)
  moreover from h have "\<forall>defect b. (defect, b) \<in> set (handled s) \<longleftrightarrow>
      defect \<in> set unique_defects \<and> three_step_lookup DEFECT_SOLUTIONS defect b"
    by (auto simp: three_step_lookup_iff)
  ultimately show ?thesis using run by blast
qed

theorem lookup_three_steps_witness:
  "iterates (map class_name scenario_boxes) [''short'', ''Unknown_defect'', ''Short''] \<and>
   (\<exists>s. detection_report scenario_boxes [''short'', ''Unknown_defect'', ''Short''] = Inr s \<and>
        map fst (handled s) = [''short'', ''Unknown_defect'', ''Short''] \<and>
        (\<forall>defect b. (defect, b) \<in> set (handled s) \<longleftrightarrow>
           defect \<in> set [''short'', ''Unknown_defect'', ''Short''] \<and>
           three_step_lookup DEFECT_SOLUTIONS defect b))"
  using lookup_three_steps [OF iterates_scenario] iterates_scenario by blast

text \<open>
  C2. The labels with a solution and the labels without one partition the unique labels of
  the detections; a label with a solution equals some key of the table exactly or after
  lower-casing, a label without one equals no key in either way.
\<close>

theorem report_partition:
  assumes "iterates (map class_name boxes) unique_defects"
  shows "\<exists>s. detection_report boxes unique_defects = Inr s \<and>
           set (map fst (resolved s)) \<union> set (unresolved s) = set (map class_name boxes) \<and>
           set (map fst (resolved s)) \<inter> set (unresolved s) = {} \<and>
           distinct (map fst (resolved s) @ unresolved s) \<and>
           (\<forall>d \<in> set (map fst (resolved s)).
              \<exists>k \<in> set (keys DEFECT_SOLUTIONS). d = k \<or> lower d = lower k) \<and>
           (\<forall>d \<in> set (unresolved s).
              \<forall>k \<in> set (keys DEFECT_SOLUTIONS). d \<noteq> k \<and> lower d \<noteq> lower k)"
proof -
  let ?hit = "\<lambda>d. branch_of DEFECT_SOLUTIONS d \<noteq> NoSolution"
  let ?miss = "\<lambda>d. branch_of DEFECT_SOLUTIONS d = NoSolution"
  from detection_report_branch [OF assms] obtain s where
    run: "detection_report boxes unique_defects = Inr s" and
    h: "handled s = map (\<lambda>d. (d, branch_of DEFECT_SOLUTIONS d)) unique_defects"
    by blast
  have r: "map fst (resolved s) = filter ?hit unique_defects"
    using h by (rule resolved_labels)
  have u: "unresolved s = filter ?miss unique_defects"
    using h by (rule unresolved_filter)
  from assms have d: "distinct unique_defects"
    and eq: "set unique_defects = set (map class_name boxes)"
    by (simp_all add: iterates_def)
  have "set (map fst (resolved s)) \<union> set (unresolved s) = set (map class_name boxes)"
    unfolding r u using eq by auto
  moreover have disj: "set (map fst (resolved s)) \<inter> set (unresolved s) = {}"
    unfolding r u by auto
  moreover have "distinct (map fst (resolved s) @ unresolved s)"
    using disj d unfolding r u by simp
  moreover have "\<forall>d \<in> set (map fst (resolved s)).
      \<exists>k \<in> set (keys DEFECT_SOLUTIONS). d = k \<or> lower d = lower k"
    unfolding r by (auto simp: branch_of_NoSolution_iff)
  moreover have "\<forall>d \<in> set (unresolved s).
      \<forall>k \<in> set (keys DEFECT_SOLUTIONS). d \<noteq> k \<and> lower d \<noteq> lower k"
    unfolding u by (auto simp: branch_of_NoSolution_iff)
  ultimately show ?thesis using run by blast
qed

theorem report_partition_witness:
  "iterates (map class_name scenario_boxes) [''Unknown_defect'', ''Short'', ''short''] \<and>
   (\<exists>s. detection_report scenario_boxes [''Unknown_defect'', ''Short'', ''short''] = Inr s \<and>
        set (map fst (resolved s)) \<union> set (unresolved s) = set (map class_name scenario_boxes) \<and>
        set (map fst (resolved s)) \<inter> set (unresolved s) = {})"
proof -
  have h: "iterates (map class_name scenario_boxes) [''Unknown_defect'', ''Short'', ''short'']"
    by (auto simp: iterates_def scenario_boxes_def)
  from report_partition [OF h] h show ?thesis by blast
qed

text \<open>
  C3. The text reported and written for a resolved label is the \<^verbatim>\<open>solution\<close> field of a
  table entry whose key equals the label exactly or after lower-casing, unchanged; and a
  detected label that differs from a key only by case is resolved, through the
  case-insensitive branch, to the text of that key's entry.
\<close>

theorem solution_text_verbatim:
  assumes "iterates (map class_name boxes) unique_defects"
  shows "\<exists>s. detection_report boxes unique_defects = Inr s \<and>
           (\<forall>d t. (d, t) \<in> set (resolved s) \<longrightarrow>
              (\<exists>k r. (k, r) \<in> set DEFECT_SOLUTIONS \<and> (d = k \<or> lower d = lower k) \<and>
                 t = solution r \<and>
                 Expander (''**Solution for '' @ replace_underscore d @ ''**'')
                   [Write ''**Suggested Repair Steps:**'', Write (solution r), ImportantNote]
                 \<in> set (shown s))) \<and>
           (\<forall>d k r. d \<in> set unique_defects \<and> (k, r) \<in> set DEFECT_SOLUTIONS \<and>
                 d \<noteq> k \<and> lower d = lower k \<longrightarrow>
              (d, CaseInsensitiveMatch k (solution r)) \<in> set (handled s) \<and>
              (d, solution r) \<in> set (resolved s))"
proof -
  from detection_report_branch [OF assms] obtain s where
    run: "detection_report boxes unique_defects = Inr s" and
    h: "handled s = map (\<lambda>d. (d, branch_of DEFECT_SOLUTIONS d)) unique_defects" and
    sh: "\<forall>d \<in> set unique_defects. set (lines_for DEFECT_SOLUTIONS d) \<subseteq> set (shown s)"
    by blast
  note rs = resolved_set [OF h]
  have "\<exists>k r. (k, r) \<in> set DEFECT_SOLUTIONS \<and> (d = k \<or> lower d = lower k) \<and>
          t = solution r \<and>
          Expander (''**Solution for '' @ replace_underscore d @ ''**'')
            [Write ''**Suggested Repair Steps:**'', Write (solution r), ImportantNote]
          \<in> set (shown s)"
    if "(d, t) \<in> set (resolved s)" for d t
  proof -
    from that rs have d: "d \<in> set unique_defects"
      and t: "solution_of (branch_of DEFECT_SOLUTIONS d) = Some t" by auto
    from branch_of_solved [OF t] obtain k r where
      kr: "(k, r) \<in> set DEFECT_SOLUTIONS" "d = k \<or> lower d = lower k" "t = solution r"
      by blast
    from t have "solution_expander d t \<in> set (lines_for DEFECT_SOLUTIONS d)"
      by (simp add: lines_for_def)
    with sh d have "solution_expander d t \<in> set (shown s)" by blast
    with kr show ?thesis by (auto simp: solution_expander_def)
  qed
  moreover have "(d, CaseInsensitiveMatch k (solution r)) \<in> set (handled s) \<and>
          (d, solution r) \<in> set (resolved s)"
    if "d \<in> set unique_defects" "(k, r) \<in> set DEFECT_SOLUTIONS" "d \<noteq> k" "lower d = lower k"
    for d k r
  proof -
    have "branch_of DEFECT_SOLUTIONS d = CaseInsensitiveMatch k (solution r)"
      using distinct_keys distinct_lower_keys that(2-4) by (rule branch_of_other_case)
    with that(1) h rs show ?thesis by auto
  qed
  ultimately show ?thesis using run by blast
qed

theorem solution_text_verbatim_witness:
  "iterates (map class_name [\<lparr>class_name = ''missing_hole'', confidence = 0.5\<rparr>])
     [''missing_hole''] \<and>
   (\<exists>s. detection_report [\<lparr>class_name = ''missing_hole'', confidence = 0.5\<rparr>]
          [''missing_hole''] = Inr s \<and>
        (''missing_hole'',
         ''1. Review the drilling program for errors. 2. Manually drill the missing hole if possible. 3. Re-fabricate the board if the defect is critical.'')
        \<in> set (resolved s))"
proof -
  let ?r = "\<lparr>description = ''A hole that was supposed to be drilled is absent.'',
             solution = ''1. Review the drilling program for errors. 2. Manually drill the missing hole if possible. 3. Re-fabricate the board if the defect is critical.''\<rparr>"
  have h: "iterates (map class_name [\<lparr>class_name = ''missing_hole'', confidence = 0.5\<rparr>])
     [''missing_hole'']"
    by (simp add: iterates_def)
  have e: "(''Missing_hole'', ?r) \<in> set DEFECT_SOLUTIONS"
    by (simp add: DEFECT_SOLUTIONS_def)
  have l: "lower ''missing_hole'' = lower ''Missing_hole''"
    by code_simp
  have n: "''missing_hole'' \<noteq> ''Missing_hole''" by simp
  from solution_text_verbatim [OF h] obtain s where
    run: "detection_report [\<lparr>class_name = ''missing_hole'', confidence = 0.5\<rparr>]
            [''missing_hole''] = Inr s" and
    ci: "\<forall>d k r. d \<in> set [''missing_hole''] \<and> (k, r) \<in> set DEFECT_SOLUTIONS \<and>
                 d \<noteq> k \<and> lower d = lower k \<longrightarrow>
              (d, CaseInsensitiveMatch k (solution r)) \<in> set (handled s) \<and>
              (d, solution r) \<in> set (resolved s)"
    by blast
  from ci e l n have "(''missing_hole'', solution ?r) \<in> set (resolved s)"
    by (metis list.set_intros(1))
  with h run show ?thesis by simp
qed

text \<open>
  C4. The report is computed for every list of detections and every iteration order: the
  result is never a \<^verbatim>\<open>KeyError\<close>. Without detections nothing is resolved and nothing is
  unresolved; when no detected label has a solution, every label is reported unresolved
  and none resolved.
\<close>

theorem report_total:
  "(\<exists>s. detection_report boxes unique_defects = Inr s) \<and>
   (\<exists>s. detection_report [] unique_defects = Inr s \<and> resolved s = [] \<and> unresolved s = [] \<and>
        handled s = [] \<and> shown s = [Info ''No defects were detected in this image.'']) \<and>
   (iterates (map class_name boxes) unique_defects \<and>
    list_all (\<lambda>d. branch_of DEFECT_SOLUTIONS d = NoSolution) unique_defects \<longrightarrow>
      (\<exists>s. detection_report boxes unique_defects = Inr s \<and> resolved s = [] \<and>
           unresolved s = unique_defects))"
proof -
  have "\<exists>s. detection_report [] unique_defects = Inr s \<and> resolved s = [] \<and>
      unresolved s = [] \<and> handled s = [] \<and>
      shown s = [Info ''No defects were detected in this image.'']"
    by (simp add: detection_report_def resolved_def unresolved_def)
  moreover have "\<exists>s. detection_report boxes unique_defects = Inr s \<and> resolved s = [] \<and>
      unresolved s = unique_defects"
    if it: "iterates (map class_name boxes) unique_defects"
      and miss: "list_all (\<lambda>d. branch_of DEFECT_SOLUTIONS d = NoSolution) unique_defects"
  proof -
    from detection_report_branch [OF it] obtain s where
      run: "detection_report boxes unique_defects = Inr s" and
      h: "handled s = map (\<lambda>d. (d, branch_of DEFECT_SOLUTIONS d)) unique_defects"
      by blast
    from miss have all: "\<forall>d \<in> set unique_defects. branch_of DEFECT_SOLUTIONS d = NoSolution"
      by (simp add: list_all_iff)
    have "set (resolved s) = {}"
      unfolding resolved_set [OF h] using all by auto
    then have "resolved s = []" by simp
    moreover have "unresolved s = unique_defects"
      unfolding unresolved_filter [OF h] using all by (simp add: filter_id_conv)
    ultimately show ?thesis using run by blast
  qed
  ultimately show ?thesis
    using detection_report_total [of boxes unique_defects] by blast
qed

theorem report_total_witness:
  "iterates (map class_name [\<lparr>class_name = ''Unknown_defect'', confidence = 0.3\<rparr>])
     [''Unknown_defect''] \<and>
   list_all (\<lambda>d. branch_of DEFECT_SOLUTIONS d = NoSolution) [''Unknown_defect''] \<and>
   (\<exists>s. detection_report [\<lparr>class_name = ''Unknown_defect'', confidence = 0.3\<rparr>]
          [''Unknown_defect''] = Inr s \<and>
        resolved s = [] \<and> unresolved s = [''Unknown_defect''])"
proof -
  have h: "iterates (map class_name [\<lparr>class_name = ''Unknown_defect'', confidence = 0.3\<rparr>])
     [''Unknown_defect'']"
    by (simp add: iterates_def)
  have m: "list_all (\<lambda>d. branch_of DEFECT_SOLUTIONS d = NoSolution) [''Unknown_defect'']"
    by (simp add: branch_Unknown_defect)
  from report_total [of "[\<lparr>class_name = ''Unknown_defect'', confidence = 0.3\<rparr>]"
      "[''Unknown_defect'']"] h m
  show ?thesis by blast
qed

text \<open>
  C5. A key of the table that is detected as a label takes the exact-match branch of
  line 196, never the case-insensitive scan, and is given the solution text of its own
  entry.
\<close>

theorem table_key_exact_match:
  assumes entry: "(k, r) \<in> set DEFECT_SOLUTIONS"
    and it: "iterates (map class_name boxes) unique_defects"
    and k: "k \<in> set unique_defects"
  shows "\<exists>s. detection_report boxes unique_defects = Inr s \<and>
           (\<forall>b. (k, b) \<in> set (handled s) \<longleftrightarrow> b = ExactMatch (solution r)) \<and>
           (\<forall>t. (k, t) \<in> set (resolved s) \<longleftrightarrow> t = solution r) \<and>
           k \<notin> set (unresolved s)"
proof -
  from detection_report_branch [OF it] obtain s where
    run: "detection_report boxes unique_defects = Inr s" and
    h: "handled s = map (\<lambda>d. (d, branch_of DEFECT_SOLUTIONS d)) unique_defects"
    by blast
  have b: "branch_of DEFECT_SOLUTIONS k = ExactMatch (solution r)"
    using distinct_keys entry by (rule branch_of_key)
  have "\<forall>b. (k, b) \<in> set (handled s) \<longleftrightarrow> b = ExactMatch (solution r)"
    using h k b by auto
  moreover have "\<forall>t. (k, t) \<in> set (resolved s) \<longleftrightarrow> t = solution r"
    using resolved_set [OF h] k b by auto
  moreover have "k \<notin> set (unresolved s)"
    using unresolved_filter [OF h] b by simp
  ultimately show ?thesis using run by blast
qed

theorem table_key_exact_match_witness:
  "(''Spur'',
    \<lparr>description = ''A sharp protrusion extending from a trace, potentially causing a short with other components.'',
     solution = ''1. Carefully scrape the copper to remove the spur. 2. Use a microscope to ensure the entire spur has been removed. 3. Check for shorts after repair.''\<rparr>)
     \<in> set DEFECT_SOLUTIONS \<and>
   iterates (map class_name [\<lparr>class_name = ''Spur'', confidence = 0.7\<rparr>]) [''Spur''] \<and>
   ''Spur'' \<in> set [''Spur''] \<and>
   (\<exists>s. detection_report [\<lparr>class_name = ''Spur'', confidence = 0.7\<rparr>] [''Spur''] = Inr s \<and>
        (''Spur'', ExactMatch ''1. Carefully scrape the copper to remove the spur. 2. Use a microscope to ensure the entire spur has been removed. 3. Check for shorts after repair.'')
          \<in> set (handled s))"
proof -
  let ?r = "\<lparr>description = ''A sharp protrusion extending from a trace, potentially causing a short with other components.'',
     solution = ''1. Carefully scrape the copper to remove the spur. 2. Use a microscope to ensure the entire spur has been removed. 3. Check for shorts after repair.''\<rparr>"
  have e: "(''Spur'', ?r) \<in> set DEFECT_SOLUTIONS" by (simp add: DEFECT_SOLUTIONS_def)
  have h: "iterates (map class_name [\<lparr>class_name = ''Spur'', confidence = 0.7\<rparr>]) [''Spur'']"
    by (simp add: iterates_def)
  have m: "''Spur'' \<in> set [''Spur'']" by simp
  from table_key_exact_match [OF e h m] obtain s where
    "detection_report [\<lparr>class_name = ''Spur'', confidence = 0.7\<rparr>] [''Spur''] = Inr s"
    "(''Spur'', ExactMatch (solution ?r)) \<in> set (handled s)"
    by blast
  with e h m show ?thesis by auto
qed

text \<open>
  C6. For the detections ("Short", 0.91), ("short", 0.40), ("Unknown_defect", 0.30) the
  unique labels are "Short", "short" and "Unknown_defect"; "Short" (exactly) and "short"
  (case-insensitively) are both given the solution text of the entry \<^verbatim>\<open>Short\<close>, which
  contains "multimeter"; "Unknown_defect" is the only unresolved label.
\<close>

theorem scenario_short:
  assumes "iterates (map class_name scenario_boxes) unique_defects"
  shows "set unique_defects = {''Short'', ''short'', ''Unknown_defect''} \<and>
         (\<exists>s r. detection_report scenario_boxes unique_defects = Inr s \<and>
            map_of DEFECT_SOLUTIONS ''Short'' = Some r \<and>
            contains ''multimeter'' (solution r) \<and>
            (''Short'', ExactMatch (solution r)) \<in> set (handled s) \<and>
            (''short'', CaseInsensitiveMatch ''Short'' (solution r)) \<in> set (handled s) \<and>
            set (resolved s) = {(''Short'', solution r), (''short'', solution r)} \<and>
            unresolved s = [''Unknown_defect''])"
proof -
  let ?t = "''1. Use a multimeter to locate the short. 2. Carefully scrape the copper to remove the short. 3. Check for any solder bridges or foreign material causing the short.''"
  from assms have d: "distinct unique_defects"
    and u: "set unique_defects = {''Short'', ''short'', ''Unknown_defect''}"
    by (auto simp: iterates_def scenario_boxes_def)
  from detection_report_branch [OF assms] obtain s where
    run: "detection_report scenario_boxes unique_defects = Inr s" and
    h: "handled s = map (\<lambda>d. (d, branch_of DEFECT_SOLUTIONS d)) unique_defects"
    by blast
  have hs: "set (handled s) =
      {(''Short'', ExactMatch ?t), (''short'', CaseInsensitiveMatch ''Short'' ?t),
       (''Unknown_defect'', NoSolution)}"
    unfolding h set_map u by (simp add: branch_Short branch_short branch_Unknown_defect)
  have "set (resolved s) = {(''Short'', ?t), (''short'', ?t)}"
    unfolding resolved_set [OF h] u
    by (auto simp: branch_Short branch_short branch_Unknown_defect)
  moreover have "unresolved s = [''Unknown_defect'']"
    unfolding unresolved_filter [OF h]
  proof (rule filter_single [OF d])
    show "''Unknown_defect'' \<in> set unique_defects" using u by simp
  next
    fix y assume "y \<in> set unique_defects"
    with u have "y = ''Short'' \<or> y = ''short'' \<or> y = ''Unknown_defect''" by auto
    then show "(branch_of DEFECT_SOLUTIONS y = NoSolution) = (y = ''Unknown_defect'')"
      by (auto simp: branch_Short branch_short branch_Unknown_defect)
  qed
  ultimately show ?thesis
    using u run hs short_entry short_text_multimeter by simp
qed

theorem scenario_short_witness:
  "iterates (map class_name scenario_boxes) [''Short'', ''Unknown_defect'', ''short''] \<and>
   (\<exists>s. detection_report scenario_boxes [''Short'', ''Unknown_defect'', ''short''] = Inr s \<and>
      unresolved s = [''Unknown_defect''])"
proof -
  have h: "iterates (map class_name scenario_boxes) [''Short'', ''Unknown_defect'', ''short'']"
    by (auto simp: iterates_def scenario_boxes_def)
  from scenario_short [OF h] h show ?thesis by blast
qed

text \<open>
  C7. The table has exactly the six keys \<^verbatim>\<open>Missing_hole\<close>, \<^verbatim>\<open>Mouse_bite\<close>,
  \<^verbatim>\<open>Open_circuit\<close>, \<^verbatim>\<open>Short\<close>, \<^verbatim>\<open>Spur\<close>, \<^verbatim>\<open>Spurious_copper\<close>; they stay pairwise
  distinct after lower-casing, so at most one key equals a given label after lower-casing.
\<close>

theorem table_keys_case_distinct:
  "keys DEFECT_SOLUTIONS =
     [''Missing_hole'', ''Mouse_bite'', ''Open_circuit'', ''Short'', ''Spur'', ''Spurious_copper''] \<and>
   distinct (map lower (keys DEFECT_SOLUTIONS)) \<and>
   length (filter (\<lambda>k. lower defect = lower k) (keys DEFECT_SOLUTIONS)) \<le> 1"
  using keys_DEFECT_SOLUTIONS distinct_lower_keys
    filter_at_most_one [OF distinct_lower_keys, of "lower defect"]
  by simp

text \<open>
  C8. Two runs over detections with the same set of labels, each with its own iteration
  order of that set, resolve the same labels to the same texts and leave the same labels
  unresolved.
\<close>

theorem resolution_independent_of_order:
  assumes "iterates (map class_name boxes1) order1"
    and "iterates (map class_name boxes2) order2"
    and "set (map class_name boxes1) = set (map class_name boxes2)"
  shows "\<exists>s1 s2. detection_report boxes1 order1 = Inr s1 \<and>
           detection_report boxes2 order2 = Inr s2 \<and>
           set (resolved s1) = set (resolved s2) \<and>
           set (unresolved s1) = set (unresolved s2)"
proof -
  from detection_report_branch [OF assms(1)] obtain s1 where
    run1: "detection_report boxes1 order1 = Inr s1" and
    h1: "handled s1 = map (\<lambda>d. (d, branch_of DEFECT_SOLUTIONS d)) order1"
    by blast
  from detection_report_branch [OF assms(2)] obtain s2 where
    run2: "detection_report boxes2 order2 = Inr s2" and
    h2: "handled s2 = map (\<lambda>d. (d, branch_of DEFECT_SOLUTIONS d)) order2"
    by blast
  from assms have eq: "set order1 = set order2" by (simp add: iterates_def)
  have "set (resolved s1) = set (resolved s2)"
    unfolding resolved_set [OF h1] resolved_set [OF h2] eq ..
  moreover have "set (unresolved s1) = set (unresolved s2)"
    unfolding unresolved_filter [OF h1] unresolved_filter [OF h2] using eq by simp
  ultimately show ?thesis using run1 run2 by blast
qed

theorem resolution_independent_of_order_witness:
  "iterates (map class_name scenario_boxes) [''Short'', ''short'', ''Unknown_defect''] \<and>
   iterates (map class_name scenario_boxes) [''Unknown_defect'', ''short'', ''Short''] \<and>
   set (map class_name scenario_boxes) = set (map class_name scenario_boxes) \<and>
   (\<exists>s1 s2. detection_report scenario_boxes [''Short'', ''short'', ''Unknown_defect''] = Inr s1 \<and>
      detection_report scenario_boxes [''Unknown_defect'', ''short'', ''Short''] = Inr s2 \<and>
      set (resolved s1) = set (resolved s2) \<and>
      set (unresolved s1) = set (unresolved s2))"
proof -
  have h1: "iterates (map class_name scenario_boxes) [''Short'', ''short'', ''Unknown_defect'']"
    by (auto simp: iterates_def scenario_boxes_def)
  have h2: "iterates (map class_name scenario_boxes) [''Unknown_defect'', ''short'', ''Short'']"
    by (auto simp: iterates_def scenario_boxes_def)
  from resolution_independent_of_order [OF h1 h2 refl] h1 h2 show ?thesis by blast
qed

section \<open>The claims about sign-up, log-in and the router\<close>

text \<open>
  C9. A submitted sign-up with an empty user name, an empty password or a user name
  already taken leaves the session state, and so the users, unchanged; any other sign-up
  adds the one entry from the new user name to the digest of the password and changes
  no other entry.
\<close>

theorem signup_atomic:
  "(new_username = [] \<or> new_password = [] \<or> new_username \<in> dom (users s) \<longrightarrow>
      fst (signup_submitted sha256_hex s new_username new_password) = s) \<and>
   (\<not> (new_username = [] \<or> new_password = [] \<or> new_username \<in> dom (users s)) \<longrightarrow>
      users (fst (signup_submitted sha256_hex s new_username new_password)) =
        (users s)(new_username \<mapsto> sha256_hex new_password) \<and>
      dom (users (fst (signup_submitted sha256_hex s new_username new_password))) =
        insert new_username (dom (users s)) \<and>
      new_username \<notin> dom (users s) \<and>
      (\<forall>name. name \<noteq> new_username \<longrightarrow>
         users (fst (signup_submitted sha256_hex s new_username new_password)) name =
           users s name) \<and>
      (finite (dom (users s)) \<longrightarrow>
         card (dom (users (fst (signup_submitted sha256_hex s new_username new_password)))) =
           Suc (card (dom (users s)))))"
  by (auto simp: signup_submitted_def)

theorem signup_atomic_witness:
  "\<not> (''alice'' = [] \<or> ''wonderland'' = [] \<or>
      ''alice'' \<in> dom (users (init_session (\<lambda>p. ''sha256:'' @ p)))) \<and>
   users (fst (signup_submitted (\<lambda>p. ''sha256:'' @ p) (init_session (\<lambda>p. ''sha256:'' @ p))
            ''alice'' ''wonderland'')) ''alice'' = Some ''sha256:wonderland'' \<and>
   users (fst (signup_submitted (\<lambda>p. ''sha256:'' @ p) (init_session (\<lambda>p. ''sha256:'' @ p))
            ''alice'' ''wonderland'')) ''testuser'' = Some ''sha256:password123'' \<and>
   ''testuser'' \<in> dom (users (init_session (\<lambda>p. ''sha256:'' @ p))) \<and>
   fst (signup_submitted (\<lambda>p. ''sha256:'' @ p) (init_session (\<lambda>p. ''sha256:'' @ p))
            ''testuser'' ''other'') = init_session (\<lambda>p. ''sha256:'' @ p)"
proof -
  let ?H = "\<lambda>p. ''sha256:'' @ p"
  have fresh: "\<not> (''alice'' = [] \<or> ''wonderland'' = [] \<or>
      ''alice'' \<in> dom (users (init_session ?H)))"
    by (simp add: init_session_def dom_def)
  have taken: "''testuser'' \<in> dom (users (init_session ?H))"
    by (simp add: init_session_def dom_def)
  have old: "users (init_session ?H) ''testuser'' = Some ''sha256:password123''"
    by (simp add: init_session_def)
  from signup_atomic [of "''alice''" "''wonderland''" "init_session ?H" ?H] fresh
  have "users (fst (signup_submitted ?H (init_session ?H) ''alice'' ''wonderland'')) =
      (users (init_session ?H))(''alice'' \<mapsto> ?H ''wonderland'')"
    by blast
  then have
    "users (fst (signup_submitted ?H (init_session ?H) ''alice'' ''wonderland'')) ''alice'' =
       Some ''sha256:wonderland''"
    "users (fst (signup_submitted ?H (init_session ?H) ''alice'' ''wonderland'')) ''testuser'' =
       Some ''sha256:password123''"
    using old by simp_all
  moreover from signup_atomic [of "''testuser''" "''other''" "init_session ?H" ?H] taken
  have "fst (signup_submitted ?H (init_session ?H) ''testuser'' ''other'') = init_session ?H"
    by blast
  ultimately show ?thesis using fresh taken by blast
qed

text \<open>
  C10. A submitted log-in takes the success branch exactly when the user name is a key of
  the users and the stored value is the digest of the password; then, and only then,
  \<^verbatim>\<open>logged_in\<close> becomes true, the user name is recorded and the page becomes
  "prediction"; otherwise the session state is unchanged. The router calls the prediction
  page only in a state in which \<^verbatim>\<open>logged_in\<close> is true.
\<close>

theorem login_iff_credentials:
  "(snd (snd (login_submitted sha256_hex s name password)) = Rerun \<longleftrightarrow>
      name \<in> dom (users s) \<and> users s name = Some (sha256_hex password)) \<and>
   (name \<in> dom (users s) \<and> users s name = Some (sha256_hex password) \<longrightarrow>
      login_submitted sha256_hex s name password =
        (s\<lparr>logged_in := True, username := Some name, page := ''prediction''\<rparr>, [], Rerun)) \<and>
   (\<not> (name \<in> dom (users s) \<and> users s name = Some (sha256_hex password)) \<longrightarrow>
      login_submitted sha256_hex s name password =
        (s, [Error ''Invalid username or password''], Continue)) \<and>
   (snd (route s) = Some PredictionPage \<longrightarrow> logged_in s \<and> fst (route s) = s) \<and>
   (\<not> logged_in s \<longrightarrow> snd (route s) \<noteq> Some PredictionPage)"
  by (auto simp: login_submitted_def route_def Let_def)

theorem login_iff_credentials_witness:
  "''testuser'' \<in> dom (users (init_session (\<lambda>p. ''sha256:'' @ p))) \<and>
   users (init_session (\<lambda>p. ''sha256:'' @ p)) ''testuser'' = Some ''sha256:password123'' \<and>
   login_submitted (\<lambda>p. ''sha256:'' @ p) (init_session (\<lambda>p. ''sha256:'' @ p))
       ''testuser'' ''password123'' =
     ((init_session (\<lambda>p. ''sha256:'' @ p))
        \<lparr>logged_in := True, username := Some ''testuser'', page := ''prediction''\<rparr>, [], Rerun) \<and>
   \<not> (''testuser'' \<in> dom (users (init_session (\<lambda>p. ''sha256:'' @ p))) \<and>
      users (init_session (\<lambda>p. ''sha256:'' @ p)) ''testuser'' = Some ''sha256:guess'') \<and>
   login_submitted (\<lambda>p. ''sha256:'' @ p) (init_session (\<lambda>p. ''sha256:'' @ p))
       ''testuser'' ''guess'' =
     (init_session (\<lambda>p. ''sha256:'' @ p), [Error ''Invalid username or password''], Continue) \<and>
   \<not> logged_in ((init_session (\<lambda>p. ''sha256:'' @ p))\<lparr>page := ''prediction''\<rparr>) \<and>
   snd (route ((init_session (\<lambda>p. ''sha256:'' @ p))\<lparr>page := ''prediction''\<rparr>)) \<noteq>
     Some PredictionPage"
proof -
  let ?H = "\<lambda>p. ''sha256:'' @ p"
  have k: "''testuser'' \<in> dom (users (init_session ?H))"
    by (simp add: init_session_def dom_def)
  have good: "users (init_session ?H) ''testuser'' = Some (?H ''password123'')"
    by (simp add: init_session_def)
  have bad: "\<not> (''testuser'' \<in> dom (users (init_session ?H)) \<and>
      users (init_session ?H) ''testuser'' = Some (?H ''guess''))"
    by (simp add: init_session_def)
  have out: "\<not> logged_in ((init_session ?H)\<lparr>page := ''prediction''\<rparr>)"
    by (simp add: init_session_def)
  from login_iff_credentials [of ?H "init_session ?H" "''testuser''" "''password123''"] k good
  have "login_submitted ?H (init_session ?H) ''testuser'' ''password123'' =
      ((init_session ?H)\<lparr>logged_in := True, username := Some ''testuser'',
         page := ''prediction''\<rparr>, [], Rerun)"
    by blast
  moreover from login_iff_credentials [of ?H "init_session ?H" "''testuser''" "''guess''"] bad
  have "login_submitted ?H (init_session ?H) ''testuser'' ''guess'' =
      (init_session ?H, [Error ''Invalid username or password''], Continue)"
    by blast
  moreover from login_iff_credentials [of ?H "(init_session ?H)\<lparr>page := ''prediction''\<rparr>"] out
  have "snd (route ((init_session ?H)\<lparr>page := ''prediction''\<rparr>)) \<noteq> Some PredictionPage"
    by blast
  ultimately show ?thesis using k good bad out by simp
qed

end
